theory Spec2Isabelle
  imports Main "HOL-Library.Sublist" "HOL-Library.AList"
begin

section \<open>The documentation linter \<open>tools/no-bad-latin.py\<close>\<close>

text \<open>
  The linter reads text files, deletes HTML comments, lower-cases what is left and
  looks for a fixed list of Latin abbreviations. Texts are modelled as \<open>string\<close>
  (character lists); Python's \<open>sub in s\<close> on strings is contiguous containment,
  which is \<^const>\<open>sublist\<close> of the library. The file system, the working
  directory and the changed-file provider are the environment of a run and are
  passed explicitly.
\<close>

subsection \<open>Characters and constants\<close>

definition newline :: char where
  "newline = CHR 0x0A"

definition tab :: char where
  "tab = CHR 0x09"

text \<open>\<open>IGNORE_LIST = ["CHANGES.md"]\<close>\<close>

definition IGNORE_LIST :: "string list" where
  "IGNORE_LIST = [''CHANGES.md'']"

text \<open>
  \<open>bad_latin = ["i.e.", "i.e ", " ie ", "e.g.", "e.g ", "e.t.c.", " etc", "et cetera"]\<close>,
  the local list of \<open>read_and_check_files\<close>.
\<close>

definition bad_latin :: "string list" where
  "bad_latin = [''i.e.'', ''i.e '', '' ie '', ''e.g.'', ''e.g '', ''e.t.c.'', '' etc'', ''et cetera'']"

text \<open>
  \<open>str.lower()\<close>, on the ASCII letters: \<open>A\<close>..\<open>Z\<close> (codes 65..90) move to
  \<open>a\<close>..\<open>z\<close>, every other character stays. Case mappings of characters outside
  ASCII are not part of the model.
\<close>

definition lower_char :: "char \<Rightarrow> char" where
  "lower_char c =
     (let n = (of_char c :: nat) in if 65 \<le> n \<and> n \<le> 90 then char_of (n + 32) else c)"

definition lower :: "string \<Rightarrow> string" where
  "lower s = map lower_char s"

subsection \<open>\<open>remove_comments\<close>\<close>

text \<open>
  \<open>re.sub("(?s)<!--(.*?)-->", "", text_string)\<close>. The regular expression engine
  scans from the left. At a position where the text starts with \<open><!--\<close> it tries
  the lazy group on longer and longer bodies, so the match ends at the first
  \<open>-->\<close> that begins at or after the end of the opening delimiter; with the flag
  \<open>(?s)\<close> the body may contain newlines. The match is replaced by the empty
  string and the scan goes on behind it. Where there is no match the character is
  copied and the scan moves one position on.

  \<open>find_close s\<close> is the text behind the first \<open>-->\<close> of \<open>s\<close>, if there is one.
\<close>

fun find_close :: "string \<Rightarrow> string option" where
  "find_close [] = None"
| "find_close (c # cs) =
     (if prefix ''-->'' (c # cs) then Some (drop 3 (c # cs)) else find_close cs)"

function remove_comments :: "string \<Rightarrow> string" where
  "remove_comments [] = []"
| "remove_comments (c # cs) =
     (if prefix ''<!--'' (c # cs) then
        (case find_close (drop 4 (c # cs)) of
           Some rest \<Rightarrow> remove_comments rest
         | None \<Rightarrow> c # remove_comments cs)
      else c # remove_comments cs)"
  by pat_completeness auto
termination
proof (relation "measure length")
  fix c cs rest
  have shorter: "find_close s = Some r \<Longrightarrow> length r < length s" for s r
    by (induction s) (auto split: if_splits)
  assume "find_close (drop 4 (c # cs)) = Some rest"
  then have "length rest < length (drop 4 (c # cs))"
    by (rule shorter)
  then show "(rest, c # cs) \<in> measure length"
    by simp
qed simp_all

subsection \<open>\<open>get_lines\<close>\<close>

text \<open>
  \<open>text_string.split("\n")\<close>: the pieces between newlines, in order; a text
  without newline is one piece, the empty text is the one empty piece. The
  recursive call never returns the empty list, so the last branch of the
  \<open>case\<close> is never taken.
\<close>

fun split_nl :: "string \<Rightarrow> string list" where
  "split_nl [] = [[]]"
| "split_nl (c # cs) =
     (if c = newline then [] # split_nl cs
      else (case split_nl cs of l # ls \<Rightarrow> (c # l) # ls | [] \<Rightarrow> [[c]]))"

text \<open>\<open>[line for line in text_string.split("\n") if sub_string in line]\<close>\<close>

definition get_lines :: "string \<Rightarrow> string \<Rightarrow> string list" where
  "get_lines text_string sub_string = filter (\<lambda>line. sublist sub_string line) (split_nl text_string)"

subsection \<open>Paths\<close>

text \<open>
  \<open>os.path.basename\<close> and the two-argument \<open>os.path.join\<close> of \<open>posixpath\<close>:
  the base name is what follows the last slash; joining keeps the second path
  when it is absolute and puts one slash between the two unless the first is
  empty or ends in a slash.
\<close>

definition basename :: "string \<Rightarrow> string" where
  "basename p = rev (takeWhile (\<lambda>c. c \<noteq> CHR ''/'') (rev p))"

definition join :: "string \<Rightarrow> string \<Rightarrow> string" where
  "join a b =
     (if prefix ''/'' b then b
      else if a = [] \<or> suffix ''/'' a then a @ b
      else a @ ''/'' @ b)"

subsection \<open>Environment, exceptions, the dictionary of failing files\<close>

text \<open>
  The exceptions that can leave a function of the script: \<open>FileNotFoundError\<close>
  and any other \<open>OSError\<close> of \<open>open\<close> and \<open>read\<close> (a directory, a permission),
  a failure of the changed-file provider, and the \<open>Exception\<close> that \<open>main\<close>
  raises with the error message.
\<close>

datatype exn = FileNotFoundError | OSError | ProviderError | Exception string

text \<open>
  The environment of a run. \<open>absolute_here\<close> is \<open>ABSOLUTE_HERE\<close>, the parent of
  the working directory. \<open>open_file p\<close> is what \<open>open(p, encoding="utf8",
  errors="ignore")\<close> followed by \<open>read()\<close> gives: the decoded text, undecodable
  bytes dropped, or the exception raised. \<open>abspath\<close> is \<open>os.path.abspath\<close>, which
  depends on the working directory. \<open>walk d\<close> lists what \<open>os.walk(d)\<close> yields,
  as pairs of a directory and the file names in it. \<open>filter_files\<close> is the
  function of the module \<open>pull_files\<close>, which resolves a pull request number to
  the files it touches.
\<close>

record env =
  absolute_here :: string
  open_file :: "string \<Rightarrow> exn + string"
  abspath :: "string \<Rightarrow> string"
  walk :: "string \<Rightarrow> (string \<times> string list) list"
  filter_files :: "string \<Rightarrow> exn + string list"

text \<open>The value stored for a failing file: \<open>{"latin_type": ..., "line": ...}\<close>.\<close>

record entry =
  latin_type :: string
  line :: string

text \<open>
  A Python dictionary keeps its keys in the order of their first insertion, and
  an assignment to a key that is present replaces the value in place. This is
  \<^const>\<open>AList.update\<close> on an association list.
\<close>

type_synonym files_dict = "(string \<times> entry) list"

subsection \<open>\<open>read_and_check_files\<close>\<close>

text \<open>
  The innermost loop \<open>for line in lines: failing_files[key] = {...}\<close>.
\<close>

fun record_lines :: "files_dict \<Rightarrow> string \<Rightarrow> string \<Rightarrow> string list \<Rightarrow> files_dict" where
  "record_lines d key lt [] = d"
| "record_lines d key lt (l # ls) =
     record_lines (AList.update key \<lparr>latin_type = lt, line = l\<rparr> d) key lt ls"

text \<open>
  The loop \<open>for latin_type in bad_latin\<close> over the patterns still to be tried;
  \<open>text\<close> is the text after \<open>remove_comments\<close>, lower-cased at each use as in
  the source.
\<close>

fun check_latin :: "files_dict \<Rightarrow> string \<Rightarrow> string \<Rightarrow> string list \<Rightarrow> files_dict" where
  "check_latin d key text [] = d"
| "check_latin d key text (lt # lts) =
     check_latin
       (if sublist lt (lower text) then record_lines d key lt (get_lines (lower text) lt) else d)
       key text lts"

text \<open>
  The loop \<open>for filename in files\<close>, from a dictionary built so far. A missing
  file is passed over by the \<open>except FileNotFoundError\<close> clause; any other
  exception leaves the function.
\<close>

fun check_files :: "env \<Rightarrow> files_dict \<Rightarrow> string list \<Rightarrow> exn + files_dict" where
  "check_files e d [] = Inr d"
| "check_files e d (filename # files) =
     (if basename filename \<notin> set IGNORE_LIST then
        (case open_file e (join (absolute_here e) filename) of
           Inr text \<Rightarrow>
             check_files e
               (check_latin d (abspath e filename) (remove_comments text) bad_latin) files
         | Inl FileNotFoundError \<Rightarrow> check_files e d files
         | Inl err \<Rightarrow> Inl err)
      else check_files e d files)"

definition read_and_check_files :: "env \<Rightarrow> string list \<Rightarrow> exn + files_dict" where
  "read_and_check_files e files = check_files e [] files"

subsection \<open>\<open>construct_error_message\<close>, \<open>get_all_files\<close>, \<open>main\<close>\<close>

text \<open>\<open>"\n".join(parts)\<close>\<close>

fun join_nl :: "string list \<Rightarrow> string" where
  "join_nl [] = []"
| "join_nl [x] = x"
| "join_nl (x # y # ys) = x @ [newline] @ join_nl (y # ys)"

definition construct_error_message :: "files_dict \<Rightarrow> string" where
  "construct_error_message files_dict =
     join_nl ((''Bad latin found in the following files:'' @ [newline]) #
       map (\<lambda>(file, v). file @ '':'' @ [tab] @ latin_type v @ [tab] @ ''found in line'' @ [tab]
              @ ''['' @ line v @ '']'' @ [newline]) files_dict)"

definition filetypes_to_ignore :: "string list" where
  "filetypes_to_ignore = [''.png'', ''.jpg'', ''.js'', ''.css'']"

text \<open>
  \<open>get_all_files(directory)\<close>: every file name of the walk that ends in none of
  the excluded suffixes, joined to its directory.
\<close>

definition get_all_files :: "env \<Rightarrow> string \<Rightarrow> string list" where
  "get_all_files e directory =
     concat (map (\<lambda>(rootdir, filenames).
        map (join rootdir)
          (filter (\<lambda>filename. \<not> list_ex (\<lambda>t. suffix t filename) filetypes_to_ignore) filenames))
       (walk e directory))"

text \<open>
  \<open>main\<close>, given the value of \<open>--pull-request\<close> (\<open>None\<close> when the option is
  absent). The default directory of \<open>get_all_files\<close> is
  \<open>os.path.join(ABSOLUTE_HERE, "src")\<close>. A normal return is \<open>Inr ()\<close>: the
  process prints nothing and exits with status zero. An exception that leaves
  \<open>main\<close> ends the process with a non-zero status and its message.
\<close>

definition discover :: "env \<Rightarrow> string option \<Rightarrow> exn + string list" where
  "discover e pull_request =
     (case pull_request of
        Some n \<Rightarrow> filter_files e n
      | None \<Rightarrow> Inr (get_all_files e (join (absolute_here e) ''src'')))"

definition main :: "env \<Rightarrow> string option \<Rightarrow> exn + unit" where
  "main e pull_request =
     (case discover e pull_request of
        Inl err \<Rightarrow> Inl err
      | Inr files \<Rightarrow>
          (case read_and_check_files e files of
             Inl err \<Rightarrow> Inl err
           | Inr failing_files \<Rightarrow>
               if failing_files \<noteq> [] then Inl (Exception (construct_error_message failing_files))
               else Inr ()))"

subsection \<open>What one text contributes\<close>

text \<open>
  Two notions for the statements below, both read off the loop over the patterns:
  \<open>matches txt\<close> lists, in the order of \<open>bad_latin\<close>, the patterns that occur in
  the lower-cased text, and \<open>file_entry txt\<close> is the value that the loop leaves
  under the key of the file, if it stores one.
\<close>

definition matches :: "string \<Rightarrow> string list" where
  "matches text = filter (\<lambda>lt. sublist lt (lower text)) bad_latin"

definition file_entry :: "string \<Rightarrow> entry option" where
  "file_entry text =
     (if matches text = [] then None
      else Some \<lparr>latin_type = last (matches text),
                 line = last (get_lines (lower text) (last (matches text)))\<rparr>)"

subsection \<open>A small repository for the examples\<close>

text \<open>
  A run in \<open>/repo/tools\<close>: a file with three offending lines, a file with one, a file whose only
  abbreviation is inside a comment, a change log, a path that cannot be read and a
  path that does not exist.
\<close>

definition example_text :: string where
  "example_text = ''Use i.e. this'' @ [newline] @ ''and E.g. that'' @ [newline] @ ''or e.g. so''"

definition example_env :: env where
  "example_env =
     \<lparr>absolute_here = ''/repo'',
      open_file = (\<lambda>p. if p = ''/repo/a.md'' then Inr example_text
                        else if p = ''/repo/c.md'' then Inr ''Milk, eggs etc''
                        else if p = ''/repo/src/b.md'' then Inr ''Nothing <!-- etc. --> here''
                        else if p = ''/repo/CHANGES.md'' \<or> p = ''/repo/src/CHANGES.md''
                          then Inr ''fixes, e.g. typos''
                        else if p = ''/repo/src'' then Inl OSError
                        else Inl FileNotFoundError),
      abspath = (\<lambda>f. join ''/repo/tools'' f),
      walk = (\<lambda>d. if d = ''/repo/src''
                   then [(''/repo/src'', [''b.md'', ''logo.png'', ''CHANGES.md''])] else []),
      filter_files = (\<lambda>n. Inr [''a.md'', ''gone.md'', ''CHANGES.md''])\<rparr>"

definition example_entry :: entry where
  "example_entry = \<lparr>latin_type = ''e.g.'', line = ''or e.g. so''\<rparr>"

text \<open>
  The example repository with every change log made unreadable: opening a path whose
  base name is in the ignore list fails with an \<open>OSError\<close>.
\<close>

definition unreadable_change_logs :: "string \<Rightarrow> exn + string" where
  "unreadable_change_logs p =
     (if basename p \<in> set IGNORE_LIST then Inl OSError else open_file example_env p)"

definition example_entry_c :: entry where
  "example_entry_c = \<lparr>latin_type = '' etc'', line = ''milk, eggs etc''\<rparr>"

section \<open>Properties\<close>

subsection \<open>Lines and patterns\<close>

lemma split_nl_nonempty: "split_nl s \<noteq> []"
  by (induction s) (auto split: list.splits)

lemma prefix_hd_split_nl:
  "prefix p s \<Longrightarrow> newline \<notin> set p \<Longrightarrow> prefix p (hd (split_nl s))"
proof (induction s arbitrary: p)
  case Nil
  then show ?case by simp
next
  case (Cons c cs)
  show ?case
  proof (cases p)
    case Nil
    then show ?thesis by simp
  next
    case (Cons a q)
    with Cons.prems have ac: "a = c" and q: "prefix q cs" and nq: "newline \<notin> set q" and cn: "c \<noteq> newline"
      by auto
    from Cons.IH [OF q nq] have "prefix q (hd (split_nl cs))" .
    with cn ac Cons split_nl_nonempty [of cs] show ?thesis
      by (auto split: list.splits)
  qed
qed

lemma sublist_split_nl:
  "sublist p s \<Longrightarrow> newline \<notin> set p \<Longrightarrow> \<exists>l \<in> set (split_nl s). sublist p l"
proof (induction s)
  case Nil
  then show ?case by simp
next
  case (Cons c cs)
  from Cons.prems(1) consider "prefix p (c # cs)" | "sublist p cs"
    by (auto simp: sublist_Cons_right)
  then show ?case
  proof cases
    case 1
    from prefix_hd_split_nl [OF 1 Cons.prems(2)] have "sublist p (hd (split_nl (c # cs)))"
      by (rule prefix_imp_sublist)
    moreover have "hd (split_nl (c # cs)) \<in> set (split_nl (c # cs))"
      using split_nl_nonempty by (intro hd_in_set)
    ultimately show ?thesis by blast
  next
    case 2
    from Cons.IH [OF 2 Cons.prems(2)] obtain l where l: "l \<in> set (split_nl cs)" "sublist p l"
      by blast
    show ?thesis
    proof (cases "c = newline")
      case True
      with l show ?thesis by auto
    next
      case False
      obtain l0 ls where s: "split_nl cs = l0 # ls"
        using split_nl_nonempty [of cs] by (cases "split_nl cs") auto
      show ?thesis
      proof (cases "l = l0")
        case True
        with l(2) have "sublist p (c # l0)" by (simp add: sublist_Cons_right)
        with False s show ?thesis by simp
      next
        case False
        with l(1) s have "l \<in> set ls" by simp
        with \<open>c \<noteq> newline\<close> s l(2) show ?thesis by auto
      qed
    qed
  qed
qed

lemma get_lines_nonempty:
  "sublist p s \<Longrightarrow> newline \<notin> set p \<Longrightarrow> get_lines s p \<noteq> []"
  using sublist_split_nl [of p s] by (auto simp: get_lines_def filter_empty_conv)

lemma record_lines_eq:
  "record_lines d k lt ls =
     (if ls = [] then d else AList.update k \<lparr>latin_type = lt, line = last ls\<rparr> d)"
  by (induction ls arbitrary: d) auto

lemma bad_latin_no_newline: "lt \<in> set bad_latin \<Longrightarrow> newline \<notin> set lt"
  by (auto simp: bad_latin_def newline_def)

lemma check_latin_eq:
  assumes "\<forall>lt \<in> set pats. newline \<notin> set lt"
  shows "check_latin d k text pats =
     (let ms = filter (\<lambda>lt. sublist lt (lower text)) pats in
      if ms = [] then d
      else AList.update k \<lparr>latin_type = last ms, line = last (get_lines (lower text) (last ms))\<rparr> d)"
  using assms
proof (induction pats arbitrary: d)
  case Nil
  then show ?case by simp
next
  case (Cons lt lts)
  then show ?case
    by (auto simp: record_lines_eq get_lines_nonempty Let_def)
qed

lemma check_latin_file_entry:
  "check_latin d k text bad_latin =
     (case file_entry text of None \<Rightarrow> d | Some v \<Rightarrow> AList.update k v d)"
  using check_latin_eq [of bad_latin d k "text"] bad_latin_no_newline
  by (simp add: file_entry_def matches_def Let_def)

subsection \<open>The loop over the files\<close>

lemma check_files_step:
  "check_files e d (f # fs) =
     (if basename f \<in> set IGNORE_LIST then check_files e d fs
      else case open_file e (join (absolute_here e) f) of
             Inr raw \<Rightarrow> check_files e (check_latin d (abspath e f) (remove_comments raw) bad_latin) fs
           | Inl err \<Rightarrow> if err = FileNotFoundError then check_files e d fs else Inl err)"
  by (cases "open_file e (join (absolute_here e) f)"; cases "projl (open_file e (join (absolute_here e) f))")
     simp_all

lemma check_files_Cons_Inr:
  assumes "check_files e d0 (f # fs) = Inr d"
  obtains "check_files e d0 fs = Inr d"
      and "basename f \<in> set IGNORE_LIST \<or> open_file e (join (absolute_here e) f) = Inl FileNotFoundError"
    | raw where "basename f \<notin> set IGNORE_LIST"
      and "open_file e (join (absolute_here e) f) = Inr raw"
      and "check_files e (check_latin d0 (abspath e f) (remove_comments raw) bad_latin) fs = Inr d"
  using assms unfolding check_files_step
  by (cases "open_file e (join (absolute_here e) f)") (simp_all split: if_splits)

lemma check_files_append:
  "check_files e d (xs @ ys) =
     (case check_files e d xs of Inl err \<Rightarrow> Inl err | Inr d1 \<Rightarrow> check_files e d1 ys)"
proof (induction xs arbitrary: d)
  case Nil
  then show ?case by simp
next
  case (Cons f xs)
  show ?case
    unfolding append_Cons check_files_step
    by (simp add: Cons.IH split: sum.splits)
qed

lemma check_files_sound:
  "check_files e d0 fs = Inr d \<Longrightarrow> map_of d k = Some v \<Longrightarrow>
     map_of d0 k = Some v \<or>
     (\<exists>f \<in> set fs. \<exists>raw. basename f \<notin> set IGNORE_LIST \<and> abspath e f = k \<and>
        open_file e (join (absolute_here e) f) = Inr raw \<and>
        file_entry (remove_comments raw) = Some v)"
proof (induction fs arbitrary: d0)
  case Nil
  then show ?case by simp
next
  case (Cons f fs)
  from Cons.prems(1) show ?case
  proof (cases rule: check_files_Cons_Inr)
    case 1
    from Cons.IH [OF 1(1) Cons.prems(2)] show ?thesis by auto
  next
    case (2 raw)
    let ?d1 = "check_latin d0 (abspath e f) (remove_comments raw) bad_latin"
    from Cons.IH [OF 2(3) Cons.prems(2)]
    consider "map_of ?d1 k = Some v"
      | "\<exists>f \<in> set fs. \<exists>raw. basename f \<notin> set IGNORE_LIST \<and> abspath e f = k \<and>
          open_file e (join (absolute_here e) f) = Inr raw \<and>
          file_entry (remove_comments raw) = Some v"
      by blast
    then show ?thesis
    proof cases
      case a: 1
      show ?thesis
      proof (cases "file_entry (remove_comments raw)")
        case None
        with a show ?thesis by (simp add: check_latin_file_entry)
      next
        case (Some w)
        with a have "map_of d0 k = Some v \<or> (abspath e f = k \<and> w = v)"
          by (auto simp: check_latin_file_entry update_conv' split: if_splits)
        with Some 2(1,2) show ?thesis by auto
      qed
    next
      case 2
      then show ?thesis by auto
    qed
  qed
qed

lemma check_latin_keys:
  "fst ` set (check_latin d k txt bad_latin) =
     (if file_entry txt = None then fst ` set d else insert k (fst ` set d))"
  by (auto simp: check_latin_file_entry dom_update split: option.splits)

lemma check_files_keys_mono:
  "check_files e d0 fs = Inr d \<Longrightarrow> fst ` set d0 \<subseteq> fst ` set d"
proof (induction fs arbitrary: d0)
  case Nil
  then show ?case by simp
next
  case (Cons f fs)
  from Cons.prems show ?case
  proof (cases rule: check_files_Cons_Inr)
    case 1
    from Cons.IH [OF 1(1)] show ?thesis .
  next
    case (2 raw)
    from Cons.IH [OF 2(3)] show ?thesis
      by (auto simp: check_latin_keys split: if_splits)
  qed
qed

lemma check_files_complete:
  "check_files e d0 fs = Inr d \<Longrightarrow> f \<in> set fs \<Longrightarrow> basename f \<notin> set IGNORE_LIST \<Longrightarrow>
     open_file e (join (absolute_here e) f) = Inr raw \<Longrightarrow>
     file_entry (remove_comments raw) \<noteq> None \<Longrightarrow> abspath e f \<in> fst ` set d"
proof (induction fs arbitrary: d0)
  case Nil
  then show ?case by simp
next
  case (Cons g fs)
  show ?case
  proof (cases "f = g")
    case True
    let ?d1 = "check_latin d0 (abspath e f) (remove_comments raw) bad_latin"
    from True Cons.prems have "check_files e ?d1 fs = Inr d" by simp
    from check_files_keys_mono [OF this] Cons.prems(5) show ?thesis
      by (auto simp: check_latin_keys)
  next
    case False
    with Cons.prems(2) have f: "f \<in> set fs" by simp
    from Cons.prems(1) obtain d1 where "check_files e d1 fs = Inr d"
      by (auto split: if_splits sum.splits exn.splits)
    from Cons.IH [OF this f Cons.prems(3,4,5)] show ?thesis .
  qed
qed

lemma check_latin_distinct:
  "distinct (map fst d) \<Longrightarrow> distinct (map fst (check_latin d k txt bad_latin))"
  by (auto simp: check_latin_file_entry distinct_update split: option.splits)

lemma check_files_distinct:
  "check_files e d0 fs = Inr d \<Longrightarrow> distinct (map fst d0) \<Longrightarrow> distinct (map fst d)"
proof (induction fs arbitrary: d0)
  case Nil
  then show ?case by simp
next
  case (Cons f fs)
  from Cons.prems(1) obtain d1 where d1: "check_files e d1 fs = Inr d"
    and "d1 = d0 \<or> (\<exists>raw. d1 = check_latin d0 (abspath e f) (remove_comments raw) bad_latin)"
    by (cases rule: check_files_Cons_Inr) blast+
  with Cons.prems(2) have "distinct (map fst d1)"
    by (auto simp: check_latin_distinct)
  from Cons.IH [OF d1 this] show ?case .
qed

lemma check_files_override:
  "check_files e d0 fs = Inr d \<Longrightarrow>
     \<exists>d2. check_files e [] fs = Inr d2 \<and> map_of d = map_of d0 ++ map_of d2"
proof (induction fs arbitrary: d0 d rule: rev_induct)
  case Nil
  then show ?case by simp
next
  case (snoc f fs)
  from snoc.prems obtain d1 where d1: "check_files e d0 fs = Inr d1"
    and d: "check_files e d1 [f] = Inr d"
    by (auto simp: check_files_append split: sum.splits)
  from snoc.IH [OF d1] obtain d2 where d2: "check_files e [] fs = Inr d2"
    and m: "map_of d1 = map_of d0 ++ map_of d2"
    by blast
  from d have "\<exists>d3. check_files e d2 [f] = Inr d3 \<and> map_of d = map_of d0 ++ map_of d3"
  proof (cases rule: check_files_Cons_Inr)
    case 1
    then have "check_files e d2 [f] = Inr d2" and "d = d1"
      by (auto simp: check_files_step)
    with m show ?thesis by simp
  next
    case (2 raw)
    then have "check_files e d2 [f] = Inr (check_latin d2 (abspath e f) (remove_comments raw) bad_latin)"
      by (simp add: check_files_step)
    moreover from 2(3) have "d = check_latin d1 (abspath e f) (remove_comments raw) bad_latin"
      by simp
    then have "map_of d = map_of d0 ++ map_of (check_latin d2 (abspath e f) (remove_comments raw) bad_latin)"
      by (simp add: m check_latin_file_entry update_conv' split: option.splits)
    ultimately show ?thesis by blast
  qed
  with d2 show ?case
    by (auto simp: check_files_append)
qed

lemma file_entry_Some:
  assumes "file_entry txt = Some v"
  shows "matches txt \<noteq> []" and "latin_type v = last (matches txt)"
    and "latin_type v \<in> set bad_latin" and "sublist (latin_type v) (lower txt)"
    and "get_lines (lower txt) (latin_type v) \<noteq> []"
    and "line v = last (get_lines (lower txt) (latin_type v))"
    and "sublist (latin_type v) (line v)"
proof -
  from assms show ne: "matches txt \<noteq> []" and lt: "latin_type v = last (matches txt)"
    by (auto simp: file_entry_def split: if_splits)
  from ne have "last (matches txt) \<in> set (matches txt)" by simp
  with lt show bl: "latin_type v \<in> set bad_latin" and sl: "sublist (latin_type v) (lower txt)"
    by (auto simp: matches_def)
  from get_lines_nonempty [OF sl bad_latin_no_newline [OF bl]]
  show gl: "get_lines (lower txt) (latin_type v) \<noteq> []" .
  from assms lt show ln: "line v = last (get_lines (lower txt) (latin_type v))"
    by (auto simp: file_entry_def split: if_splits)
  from gl have "last (get_lines (lower txt) (latin_type v)) \<in> set (get_lines (lower txt) (latin_type v))"
    by simp
  with ln show "sublist (latin_type v) (line v)"
    by (simp add: get_lines_def)
qed

subsection \<open>The ignore list\<close>

lemma basename_join: "basename (join a b) = basename b"
proof -
  have slash: "basename (x @ ''/'' @ b) = basename b" for x
  proof (cases "\<forall>c \<in> set (rev b). c \<noteq> CHR ''/''")
    case True
    have "takeWhile (\<lambda>c. c \<noteq> CHR ''/'') (rev b @ CHR ''/'' # rev x) =
        rev b @ takeWhile (\<lambda>c. c \<noteq> CHR ''/'') (CHR ''/'' # rev x)"
      by (rule takeWhile_append2) (use True in blast)
    moreover from True have "takeWhile (\<lambda>c. c \<noteq> CHR ''/'') (rev b) = rev b"
      by (simp add: takeWhile_eq_all_conv)
    ultimately have "takeWhile (\<lambda>c. c \<noteq> CHR ''/'') (rev b @ CHR ''/'' # rev x) =
        takeWhile (\<lambda>c. c \<noteq> CHR ''/'') (rev b)"
      by (simp only: takeWhile.simps simp_thms if_False append_Nil2)
    then show ?thesis by (simp add: basename_def)
  next
    case False
    then obtain c where "c \<in> set (rev b)" "\<not> c \<noteq> CHR ''/''" by blast
    then have "takeWhile (\<lambda>c. c \<noteq> CHR ''/'') (rev b @ CHR ''/'' # rev x) =
        takeWhile (\<lambda>c. c \<noteq> CHR ''/'') (rev b)"
      by (rule takeWhile_append1)
    then show ?thesis by (simp add: basename_def)
  qed
  show ?thesis
  proof (cases "prefix ''/'' b \<or> a = []")
    case True
    then show ?thesis by (auto simp: join_def)
  next
    case False
    show ?thesis
    proof (cases "suffix ''/'' a")
      case True
      then obtain x where "a = x @ ''/''" by (auto simp: suffix_def)
      with False slash [of x] show ?thesis by (simp add: join_def)
    next
      case no: False
      with False slash [of a] show ?thesis by (simp add: join_def)
    qed
  qed
qed

lemma check_files_filter_ignored:
  "check_files e d files = check_files e d (filter (\<lambda>f. basename f \<notin> set IGNORE_LIST) files)"
proof (induction files arbitrary: d)
  case Nil
  then show ?case by simp
next
  case (Cons f files)
  show ?case
  proof (cases "basename f \<in> set IGNORE_LIST")
    case True
    then show ?thesis by (simp add: Cons.IH check_files_step)
  next
    case False
    show ?thesis
    proof (cases "open_file e (join (absolute_here e) f)")
      case (Inl err)
      with False show ?thesis by (cases err) (simp_all add: Cons.IH)
    next
      case (Inr raw)
      with False show ?thesis by (simp add: Cons.IH)
    qed
  qed
qed

lemma check_files_open_cong:
  assumes "\<forall>p. basename p \<notin> set IGNORE_LIST \<longrightarrow> open' p = open_file e p"
  shows "check_files (e\<lparr>open_file := open'\<rparr>) d files = check_files e d files"
proof (induction files arbitrary: d)
  case Nil
  then show ?case by simp
next
  case (Cons f files)
  show ?case
  proof (cases "basename f \<in> set IGNORE_LIST")
    case True
    then show ?thesis by (simp add: Cons.IH check_files_step)
  next
    case False
    then have "basename (join (absolute_here e) f) \<notin> set IGNORE_LIST"
      by (simp add: basename_join)
    with assms have "open' (join (absolute_here e) f) = open_file e (join (absolute_here e) f)"
      by blast
    with False show ?thesis
      unfolding check_files_step by (simp add: Cons.IH split: sum.splits)
  qed
qed

subsection \<open>The example repository\<close>

lemma example_open:
  "open_file example_env (join (absolute_here example_env) ''a.md'') = Inr example_text"
  by code_simp

section \<open>The claims\<close>

lemma example_scan:
  "read_and_check_files example_env [''a.md''] = Inr [(''/repo/tools/a.md'', example_entry)]"
  by code_simp

text \<open>
  Claim C9. When opening a file of the list raises \<open>FileNotFoundError\<close>, the file
  adds nothing: the function returns what it returns for the list without that file,
  so no exception leaves it on account of the missing file and the files before and
  behind it are scanned with the same results.
\<close>

theorem missing_file_skipped:
  assumes "open_file e (join (absolute_here e) f) = Inl FileNotFoundError"
  shows "read_and_check_files e (xs @ f # ys) = read_and_check_files e (xs @ ys)"
proof -
  from assms have "check_files e d (f # ys) = check_files e d ys" for d
    by (simp add: check_files_step)
  then show ?thesis
    by (simp add: read_and_check_files_def check_files_append split: sum.splits)
qed

theorem missing_file_skipped_witness:
  "open_file example_env (join (absolute_here example_env) ''gone.md'') = Inl FileNotFoundError \<and>
   read_and_check_files example_env ([''CHANGES.md''] @ ''gone.md'' # [''a.md'']) =
     Inr [(''/repo/tools/a.md'', example_entry)] \<and>
   read_and_check_files example_env ([''CHANGES.md''] @ [''a.md'']) =
     Inr [(''/repo/tools/a.md'', example_entry)]"
proof -
  have h: "open_file example_env (join (absolute_here example_env) ''gone.md'') = Inl FileNotFoundError"
    by code_simp
  have r: "read_and_check_files example_env ([''CHANGES.md''] @ [''a.md'']) =
     Inr [(''/repo/tools/a.md'', example_entry)]"
    by code_simp
  from missing_file_skipped [OF h, of "[''CHANGES.md'']" "[''a.md'']"] h r show ?thesis
    by simp
qed

text \<open>
  Claim C10. Every entry of the returned dictionary has as key the absolute path of a
  file of the input list whose base name is not in the ignore list, and its recorded
  line contains its recorded pattern.
\<close>

theorem result_well_formed:
  assumes "read_and_check_files e files = Inr d" and "(k, v) \<in> set d"
  shows "(\<exists>f \<in> set files. k = abspath e f \<and> basename f \<notin> set IGNORE_LIST) \<and>
         sublist (latin_type v) (line v)"
proof -
  from assms(1) have cf: "check_files e [] files = Inr d"
    by (simp add: read_and_check_files_def)
  from check_files_distinct [OF cf] have "distinct (map fst d)" by simp
  with assms(2) have "map_of d k = Some v" by simp
  from check_files_sound [OF cf this]
  obtain f raw where "f \<in> set files" "basename f \<notin> set IGNORE_LIST" "abspath e f = k"
    and "file_entry (remove_comments raw) = Some v"
    by auto
  with file_entry_Some(7) [of "remove_comments raw" v] show ?thesis by auto
qed

theorem result_well_formed_witness:
  "read_and_check_files example_env [''a.md''] = Inr [(''/repo/tools/a.md'', example_entry)] \<and>
   (''/repo/tools/a.md'', example_entry) \<in> set [(''/repo/tools/a.md'', example_entry)] \<and>
   (\<exists>f \<in> set [''a.md'']. ''/repo/tools/a.md'' = abspath example_env f \<and>
      basename f \<notin> set IGNORE_LIST) \<and>
   sublist (latin_type example_entry) (line example_entry)"
proof -
  have m: "(''/repo/tools/a.md'', example_entry) \<in> set [(''/repo/tools/a.md'', example_entry)]"
    by simp
  from result_well_formed [OF example_scan m] example_scan m show ?thesis
    by blast
qed

text \<open>
  Claim C8. A file whose base name equals an entry of the ignore list is never opened
  or scanned and adds nothing to the report, whatever it contains: the result for a
  list of files is the result for the list without the ignored files, and neither
  \<open>read_and_check_files\<close> nor a whole run, with or without a pull request number,
  depends on what opening a path with an ignored base name would give.
\<close>

theorem ignored_files_never_scanned:
  "read_and_check_files e files =
     read_and_check_files e (filter (\<lambda>f. basename f \<notin> set IGNORE_LIST) files) \<and>
   ((\<forall>p. basename p \<notin> set IGNORE_LIST \<longrightarrow> open' p = open_file e p) \<longrightarrow>
      read_and_check_files (e\<lparr>open_file := open'\<rparr>) files = read_and_check_files e files \<and>
      main (e\<lparr>open_file := open'\<rparr>) pull_request = main e pull_request)"
proof (intro conjI impI)
  show "read_and_check_files e files =
     read_and_check_files e (filter (\<lambda>f. basename f \<notin> set IGNORE_LIST) files)"
    unfolding read_and_check_files_def by (rule check_files_filter_ignored)
next
  assume a: "\<forall>p. basename p \<notin> set IGNORE_LIST \<longrightarrow> open' p = open_file e p"
  then show r: "read_and_check_files (e\<lparr>open_file := open'\<rparr>) fs = read_and_check_files e fs" for fs
    unfolding read_and_check_files_def by (rule check_files_open_cong)
  have "discover (e\<lparr>open_file := open'\<rparr>) pull_request = discover e pull_request"
    by (simp add: discover_def get_all_files_def split: option.splits)
  then show "main (e\<lparr>open_file := open'\<rparr>) pull_request = main e pull_request"
    by (simp add: main_def r split: sum.splits)
qed

theorem ignored_files_never_scanned_witness:
  "read_and_check_files example_env [''CHANGES.md'', ''a.md'', ''docs/CHANGES.md''] =
     read_and_check_files example_env [''a.md''] \<and>
   main (example_env\<lparr>open_file := unreadable_change_logs\<rparr>) None = Inr () \<and>
   main (example_env\<lparr>open_file := unreadable_change_logs\<rparr>) (Some ''7'') =
     main example_env (Some ''7'')"
proof -
  have h: "\<forall>p. basename p \<notin> set IGNORE_LIST \<longrightarrow> unreadable_change_logs p = open_file example_env p"
    by (simp add: unreadable_change_logs_def)
  have f: "filter (\<lambda>f. basename f \<notin> set IGNORE_LIST) [''CHANGES.md'', ''a.md'', ''docs/CHANGES.md'']
      = [''a.md'']"
    by code_simp
  have m: "main example_env None = Inr ()"
    by code_simp
  from ignored_files_never_scanned
    [of example_env "[''CHANGES.md'', ''a.md'', ''docs/CHANGES.md'']" unreadable_change_logs None]
    ignored_files_never_scanned [of example_env "[]" unreadable_change_logs "Some ''7''"]
    h f m
  show ?thesis by simp
qed

text \<open>
  Claim C1, as stated, fails. The value stored under the key of a file is one record,
  and every pattern that matches overwrites it: in the example file both \<open>i.e.\<close> and
  \<open>e.g.\<close> occur, and the result names \<open>e.g.\<close> only.
\<close>

theorem only_one_pattern_recorded:
  "read_and_check_files example_env [''a.md''] =
     Inr [(''/repo/tools/a.md'', \<lparr>latin_type = ''e.g.'', line = ''or e.g. so''\<rparr>)] \<and>
   ''i.e.'' \<in> set bad_latin \<and>
   sublist ''i.e.'' (lower (remove_comments example_text))"
  by code_simp

text \<open>
  Claim C1, amended. The result has one entry for each failing file, under its absolute
  path: every entry belongs to a scanned file of the list and names the last pattern, in
  the order of \<open>bad_latin\<close>, that occurs in the comment-stripped, lower-cased text of
  that file, and every scanned file in which some pattern occurs has an entry.
\<close>

theorem one_entry_per_file:
  assumes "read_and_check_files e files = Inr d"
  shows "distinct (map fst d) \<and>
    (\<forall>k v. map_of d k = Some v \<longrightarrow>
       (\<exists>f \<in> set files. \<exists>raw. abspath e f = k \<and> basename f \<notin> set IGNORE_LIST \<and>
          open_file e (join (absolute_here e) f) = Inr raw \<and>
          matches (remove_comments raw) \<noteq> [] \<and>
          latin_type v = last (matches (remove_comments raw)))) \<and>
    (\<forall>f \<in> set files. \<forall>raw. basename f \<notin> set IGNORE_LIST \<longrightarrow>
       open_file e (join (absolute_here e) f) = Inr raw \<longrightarrow>
       matches (remove_comments raw) \<noteq> [] \<longrightarrow> abspath e f \<in> fst ` set d)"
proof (intro conjI allI ballI impI)
  from assms have cf: "check_files e [] files = Inr d"
    by (simp add: read_and_check_files_def)
  from check_files_distinct [OF cf] show "distinct (map fst d)" by simp
  show "\<exists>f \<in> set files. \<exists>raw. abspath e f = k \<and> basename f \<notin> set IGNORE_LIST \<and>
          open_file e (join (absolute_here e) f) = Inr raw \<and>
          matches (remove_comments raw) \<noteq> [] \<and>
          latin_type v = last (matches (remove_comments raw))"
    if "map_of d k = Some v" for k v
  proof -
    from check_files_sound [OF cf that]
    obtain f raw where f: "f \<in> set files" "basename f \<notin> set IGNORE_LIST" "abspath e f = k"
      "open_file e (join (absolute_here e) f) = Inr raw"
      and fe: "file_entry (remove_comments raw) = Some v"
      by auto
    from file_entry_Some(1,2) [OF fe] f show ?thesis by blast
  qed
  show "abspath e f \<in> fst ` set d"
    if "f \<in> set files" "basename f \<notin> set IGNORE_LIST"
      "open_file e (join (absolute_here e) f) = Inr raw" "matches (remove_comments raw) \<noteq> []"
    for f raw
  proof -
    from that(4) have "file_entry (remove_comments raw) \<noteq> None"
      by (simp add: file_entry_def)
    from check_files_complete [OF cf that(1,2,3) this] show ?thesis .
  qed
qed

theorem one_entry_per_file_witness:
  "read_and_check_files example_env [''a.md''] = Inr [(''/repo/tools/a.md'', example_entry)] \<and>
   distinct (map fst [(''/repo/tools/a.md'', example_entry)]) \<and>
   matches (remove_comments example_text) = [''i.e.'', ''e.g.''] \<and>
   latin_type example_entry = last (matches (remove_comments example_text)) \<and>
   abspath example_env ''a.md'' \<in> fst ` set [(''/repo/tools/a.md'', example_entry)]"
proof -
  note t = one_entry_per_file [OF example_scan]
  have m: "matches (remove_comments example_text) = [''i.e.'', ''e.g.'']"
    by code_simp
  have k: "map_of [(''/repo/tools/a.md'', example_entry)] ''/repo/tools/a.md'' = Some example_entry"
    by simp
  from t k have "\<exists>f \<in> set [''a.md'']. \<exists>raw.
      open_file example_env (join (absolute_here example_env) f) = Inr raw \<and>
      latin_type example_entry = last (matches (remove_comments raw))"
    by blast
  with example_open have l: "latin_type example_entry = last (matches (remove_comments example_text))"
    by auto
  from t example_open m have "abspath example_env ''a.md'' \<in> fst ` set [(''/repo/tools/a.md'', example_entry)]"
    by auto
  with example_scan t m l show ?thesis by blast
qed

text \<open>
  Claim C3. The line recorded with a pattern is the last line, in document order, of the
  comment-stripped, lower-cased text that contains the pattern: this is what the loop
  over the lines leaves when it has run for one pattern, and it is what every entry of
  the result holds.
\<close>

theorem last_line_recorded:
  "(lt \<in> set bad_latin \<longrightarrow> sublist lt (lower txt) \<longrightarrow>
      get_lines (lower txt) lt \<noteq> [] \<and>
      map_of (check_latin d0 key txt [lt]) key =
        Some \<lparr>latin_type = lt, line = last (get_lines (lower txt) lt)\<rparr>) \<and>
   (read_and_check_files e files = Inr d \<longrightarrow> map_of d k = Some v \<longrightarrow>
      (\<exists>f \<in> set files. \<exists>raw. abspath e f = k \<and> basename f \<notin> set IGNORE_LIST \<and>
         open_file e (join (absolute_here e) f) = Inr raw \<and>
         get_lines (lower (remove_comments raw)) (latin_type v) \<noteq> [] \<and>
         line v = last (get_lines (lower (remove_comments raw)) (latin_type v))))"
proof (intro conjI impI)
  assume lt: "lt \<in> set bad_latin" and s: "sublist lt (lower txt)"
  from get_lines_nonempty [OF s bad_latin_no_newline [OF lt]]
  show g: "get_lines (lower txt) lt \<noteq> []" .
  with s show "map_of (check_latin d0 key txt [lt]) key =
        Some \<lparr>latin_type = lt, line = last (get_lines (lower txt) lt)\<rparr>"
    by (simp add: record_lines_eq update_conv')
next
  assume "read_and_check_files e files = Inr d" and k: "map_of d k = Some v"
  then have cf: "check_files e [] files = Inr d"
    by (simp add: read_and_check_files_def)
  from check_files_sound [OF cf k]
  obtain f raw where f: "f \<in> set files" "basename f \<notin> set IGNORE_LIST" "abspath e f = k"
      "open_file e (join (absolute_here e) f) = Inr raw"
      and fe: "file_entry (remove_comments raw) = Some v"
    by auto
  from file_entry_Some(5,6) [OF fe] f
  show "\<exists>f \<in> set files. \<exists>raw. abspath e f = k \<and> basename f \<notin> set IGNORE_LIST \<and>
         open_file e (join (absolute_here e) f) = Inr raw \<and>
         get_lines (lower (remove_comments raw)) (latin_type v) \<noteq> [] \<and>
         line v = last (get_lines (lower (remove_comments raw)) (latin_type v))"
    by blast
qed

theorem last_line_recorded_witness:
  "''e.g.'' \<in> set bad_latin \<and> sublist ''e.g.'' (lower example_text) \<and>
   get_lines (lower example_text) ''e.g.'' = [''and e.g. that'', ''or e.g. so''] \<and>
   map_of (check_latin [] ''k'' example_text [''e.g.'']) ''k'' =
     Some \<lparr>latin_type = ''e.g.'', line = ''or e.g. so''\<rparr> \<and>
   read_and_check_files example_env [''a.md''] = Inr [(''/repo/tools/a.md'', example_entry)] \<and>
   line example_entry = last (get_lines (lower (remove_comments example_text)) (latin_type example_entry))"
proof -
  have h1: "''e.g.'' \<in> set bad_latin" by code_simp
  have h2: "sublist ''e.g.'' (lower example_text)" by code_simp
  have g: "get_lines (lower example_text) ''e.g.'' = [''and e.g. that'', ''or e.g. so'']"
    by code_simp
  have k: "map_of [(''/repo/tools/a.md'', example_entry)] ''/repo/tools/a.md'' = Some example_entry"
    by simp
  note t = last_line_recorded [of "''e.g.''" example_text "[]" "''k''" example_env "[''a.md'']"
      "[(''/repo/tools/a.md'', example_entry)]" "''/repo/tools/a.md''" example_entry]
  from t h1 h2 g have a: "map_of (check_latin [] ''k'' example_text [''e.g.'']) ''k'' =
     Some \<lparr>latin_type = ''e.g.'', line = ''or e.g. so''\<rparr>"
    by simp
  from t example_scan k have "\<exists>f \<in> set [''a.md'']. \<exists>raw.
      open_file example_env (join (absolute_here example_env) f) = Inr raw \<and>
      line example_entry = last (get_lines (lower (remove_comments raw)) (latin_type example_entry))"
    by blast
  with example_open have "line example_entry =
      last (get_lines (lower (remove_comments example_text)) (latin_type example_entry))"
    by auto
  with h1 h2 g a example_scan show ?thesis by blast
qed

text \<open>
  Claim C4. When the files are found and scanned, the run raises the exception with the
  error message exactly when the dictionary of failing files is not empty, and returns
  silently otherwise. The scan does not stop at a violation: the result for a list
  \<open>xs @ ys\<close> is the result for \<open>xs\<close> overridden by the result for \<open>ys\<close>.
\<close>

theorem run_fails_iff_report_nonempty:
  "(discover e pull_request = Inr files \<longrightarrow> read_and_check_files e files = Inr d \<longrightarrow>
      main e pull_request =
        (if d = [] then Inr () else Inl (Exception (construct_error_message d)))) \<and>
   (read_and_check_files e (xs @ ys) = Inr d' \<longrightarrow>
      (\<exists>d1 d2. read_and_check_files e xs = Inr d1 \<and> read_and_check_files e ys = Inr d2 \<and>
         map_of d' = map_of d1 ++ map_of d2))"
proof (intro conjI impI)
  assume "discover e pull_request = Inr files" "read_and_check_files e files = Inr d"
  then show "main e pull_request =
        (if d = [] then Inr () else Inl (Exception (construct_error_message d)))"
    by (simp add: main_def)
next
  assume "read_and_check_files e (xs @ ys) = Inr d'"
  then obtain d1 where d1: "check_files e [] xs = Inr d1" and d: "check_files e d1 ys = Inr d'"
    by (auto simp: read_and_check_files_def check_files_append split: sum.splits)
  from check_files_override [OF d] d1
  show "\<exists>d1 d2. read_and_check_files e xs = Inr d1 \<and> read_and_check_files e ys = Inr d2 \<and>
         map_of d' = map_of d1 ++ map_of d2"
    by (auto simp: read_and_check_files_def)
qed

theorem run_fails_iff_report_nonempty_witness:
  "discover example_env (Some ''7'') = Inr [''a.md'', ''gone.md'', ''CHANGES.md''] \<and>
   read_and_check_files example_env [''a.md'', ''gone.md'', ''CHANGES.md''] =
     Inr [(''/repo/tools/a.md'', example_entry)] \<and>
   main example_env (Some ''7'') =
     Inl (Exception (construct_error_message [(''/repo/tools/a.md'', example_entry)])) \<and>
   read_and_check_files example_env ([''a.md''] @ [''c.md'']) =
     Inr [(''/repo/tools/a.md'', example_entry), (''/repo/tools/c.md'', example_entry_c)] \<and>
   (\<exists>d1 d2. read_and_check_files example_env [''a.md''] = Inr d1 \<and>
      read_and_check_files example_env [''c.md''] = Inr d2 \<and>
      map_of [(''/repo/tools/a.md'', example_entry), (''/repo/tools/c.md'', example_entry_c)] =
        map_of d1 ++ map_of d2)"
proof -
  have h1: "discover example_env (Some ''7'') = Inr [''a.md'', ''gone.md'', ''CHANGES.md'']"
    by code_simp
  have h2: "read_and_check_files example_env [''a.md'', ''gone.md'', ''CHANGES.md''] =
     Inr [(''/repo/tools/a.md'', example_entry)]"
    by code_simp
  have h3: "read_and_check_files example_env ([''a.md''] @ [''c.md'']) =
     Inr [(''/repo/tools/a.md'', example_entry), (''/repo/tools/c.md'', example_entry_c)]"
    by code_simp
  from run_fails_iff_report_nonempty [of example_env "Some ''7''" "[''a.md'', ''gone.md'', ''CHANGES.md'']"
      "[(''/repo/tools/a.md'', example_entry)]" "[''a.md'']" "[''c.md'']"
      "[(''/repo/tools/a.md'', example_entry), (''/repo/tools/c.md'', example_entry_c)]"]
    h1 h2 h3
  show ?thesis by simp
qed

end
